theory Spec2Isabelle
  imports Main "HOL-Library.Word" "HOL-Library.Char_ord" "HOL-Library.List_Lexorder"
begin

section \<open>Label arrays and \<open>relabel\<close>\<close>

text \<open>
  \<open>evaluate\<close> builds the label map with \<open>img_out.max(0)[1].byte()\<close> and
  \<open>.numpy()\<close>: a two-dimensional numpy array of unsigned bytes. Python names are
  references, so an array lives in a store at an address and \<open>relabel(img)\<close> receives
  the address. A statement \<open>img[img == k] = v\<close> writes \<open>v\<close> into every cell of the
  array at that address that holds \<open>k\<close> at the moment the statement runs.
\<close>

type_synonym uint8 = "8 word"

type_synonym ndarray = "uint8 list list"

type_synonym ref = nat

type_synonym store = "ref \<Rightarrow> ndarray"

definition assign_where :: "ref \<Rightarrow> uint8 \<Rightarrow> uint8 \<Rightarrow> store \<Rightarrow> store" where
  \<comment> \<open>\<open>img[img == k] = v\<close>\<close>
  "assign_where img k v h = h(img := map (map (\<lambda>x. if x = k then v else x)) (h img))"

definition relabel_rules :: "(uint8 \<times> uint8) list" where
  \<comment> \<open>the 21 assignments of \<open>relabel\<close>, in the order of the source lines 24 to 44\<close>
  "relabel_rules =
     [(19, 255), (18, 33), (17, 32), (16, 31), (15, 28), (14, 27), (13, 26),
      (12, 25), (11, 24), (10, 23), (9, 22), (8, 21), (7, 20), (6, 19), (5, 17),
      (4, 13), (3, 12), (2, 11), (1, 8), (0, 7), (255, 0)]"

definition relabel :: "ref \<Rightarrow> store \<Rightarrow> ref \<times> store" where
  \<comment> \<open>runs the assignments one after the other on the array passed in; \<open>return img\<close>\<close>
  "relabel img h = (img, fold (\<lambda>(k, v). assign_where img k v) relabel_rules h)"

definition documented_table :: "uint8 \<Rightarrow> uint8" where
  \<comment> \<open>the table as the specification documents it, every rule read on its own;
     a value outside the table passes through\<close>
  "documented_table x =
     (case map_of
        [(0, 7), (1, 8), (2, 11), (3, 12), (4, 13), (5, 17), (6, 19), (7, 20), (8, 21),
         (9, 22), (10, 23), (11, 24), (12, 25), (13, 26), (14, 27), (15, 28), (16, 31),
         (17, 32), (18, 33), (19, 255), (255, 0)] x
      of Some v \<Rightarrow> v | None \<Rightarrow> x)"

definition relabel_cell :: "uint8 \<Rightarrow> uint8" where
  \<comment> \<open>what the sequence of assignments does to one cell\<close>
  "relabel_cell x = fold (\<lambda>(k, v) y. if y = k then v else y) relabel_rules x"

definition identity_check :: ndarray where
  \<comment> \<open>every value of the table's domain exactly once\<close>
  "identity_check =
     [[0, 1, 2, 3, 4, 5, 6, 7, 8, 9, 10, 11, 12, 13, 14, 15, 16, 17, 18, 19, 255]]"

definition identity_store :: store where
  \<comment> \<open>a store that holds \<open>identity_check\<close> at every address\<close>
  "identity_store = (\<lambda>_. identity_check)"

definition shape :: "ndarray \<Rightarrow> nat list" where
  "shape a = map length a"

section \<open>Strings\<close>

text \<open>
  Python strings are modelled as \<open>string\<close>; a character stands for a code point below
  256. The functions below are the built-in string and path operations the program calls,
  with Python's behaviour on POSIX.
\<close>

definition isspace :: "char \<Rightarrow> bool" where
  \<comment> \<open>the code points below 256 that \<open>str.split()\<close> treats as white space\<close>
  "isspace c = (of_char c \<in> {9, 10, 11, 12, 13, 28, 29, 30, 31, 32, 133, 160 :: nat})"

fun split_ws :: "string \<Rightarrow> string \<Rightarrow> string list" where
  \<comment> \<open>\<open>split_ws w s\<close>: the words of \<open>s\<close>, \<open>w\<close> being the word read so far\<close>
  "split_ws w [] = (if w = [] then [] else [w])"
| "split_ws w (c # cs) =
     (if isspace c then (if w = [] then split_ws [] cs else w # split_ws [] cs)
      else split_ws (w @ [c]) cs)"

definition py_split :: "string \<Rightarrow> string list" where
  \<comment> \<open>\<open>s.split()\<close>: the maximal runs of characters that are not white space\<close>
  "py_split s = split_ws [] s"

fun split_sep :: "char \<Rightarrow> string \<Rightarrow> string list" where
  \<comment> \<open>\<open>s.split(sep)\<close> for a separator of one character; never the empty list\<close>
  "split_sep sep [] = [[]]"
| "split_sep sep (c # cs) =
     (if c = sep then [] # split_sep sep cs
      else (case split_sep sep cs of
              [] \<Rightarrow> [[c]]
            | w # ws \<Rightarrow> (c # w) # ws))"

fun replace_nonempty :: "string \<Rightarrow> string \<Rightarrow> string \<Rightarrow> string" where
  "replace_nonempty [] old new = []"
| "replace_nonempty (c # cs) old new =
     (if old \<noteq> [] \<and> take (length old) (c # cs) = old
      then new @ replace_nonempty (drop (length old) (c # cs)) old new
      else c # replace_nonempty cs old new)"

definition py_replace :: "string \<Rightarrow> string \<Rightarrow> string \<Rightarrow> string" where
  \<comment> \<open>\<open>s.replace(old, new)\<close>: every occurrence of \<open>old\<close>, found from the left without
     overlap; an empty \<open>old\<close> matches before every character and at the end\<close>
  "py_replace s old new =
     (if old = [] then new @ concat (map (\<lambda>c. c # new) s) else replace_nonempty s old new)"

fun os_path_join :: "string \<Rightarrow> string list \<Rightarrow> string" where
  \<comment> \<open>\<open>os.path.join(a, *p)\<close> of \<open>posixpath\<close>\<close>
  "os_path_join path [] = path"
| "os_path_join path (b # p) =
     os_path_join
       (if take 1 b = ''/'' then b
        else if path = [] \<or> last path = CHR ''/'' then path @ b
        else path @ ''/'' @ b) p"

section \<open>Enumerating the images: \<open>load_dataset\<close>\<close>

text \<open>
  The options bag \<open>args\<close> with the fields the modelled functions read, and the file
  system as the answers it gives to the three calls \<open>load_dataset\<close> makes:
  \<open>glob.glob(pattern)\<close> (the matches, in the order the library enumerates them),
  \<open>os.path.isfile(path)\<close>, and the lines that iterating over \<open>open(path, 'r')\<close>
  yields (\<open>None\<close> when \<open>open\<close> raises).
\<close>

record args =
  dataset :: string
  data_path :: string
  split :: string
  savedir :: string

record file_system =
  glob_glob :: "string \<Rightarrow> string list"
  isfile :: "string \<Rightarrow> bool"
  file_lines :: "string \<Rightarrow> string list option"

datatype error =
    ConfigError string
  | UnboundLocalError string
  | IndexError
  | OSError string
  | AttributeError string
  | RuntimeError

definition print_error_message :: "string \<Rightarrow> error + 'a" where
  \<comment> \<open>Modelled from the spec: \<open>print_error_message\<close> of \<open>utilities.print_utils\<close> is not
     among the sources. The specification has a configuration error "reported as a
     diagnostic and the run aborts": the call prints its message and does not return.\<close>
  "print_error_message message = Inl (ConfigError message)"

definition city_image_path :: "args \<Rightarrow> string" where
  \<comment> \<open>\<open>os.path.join(args.data_path, "leftImg8bit", args.split, "*", "*.png")\<close>\<close>
  "city_image_path a = os_path_join (data_path a) [''leftImg8bit'', split a, ''*'', ''*.png'']"

definition voc_data_file :: "args \<Rightarrow> string" where
  \<comment> \<open>\<open>os.path.join(args.data_path, 'VOC2012', 'list', '{}.txt'.format(args.split))\<close>\<close>
  "voc_data_file a = os_path_join (data_path a) [''VOC2012'', ''list'', split a @ ''.txt'']"

definition rgb_img_loc :: "args \<Rightarrow> string \<Rightarrow> error + string" where
  \<comment> \<open>\<open>'{}/{}/{}'.format(args.data_path, 'VOC2012', line.split()[0])\<close>; indexing the
     empty list raises\<close>
  "rgb_img_loc a line =
     (case py_split line of
        [] \<Rightarrow> Inl IndexError
      | tok # _ \<Rightarrow> Inr (data_path a @ ''/'' @ ''VOC2012'' @ ''/'' @ tok))"

fun read_manifest :: "file_system \<Rightarrow> args \<Rightarrow> string list \<Rightarrow> string list \<Rightarrow> error + string list" where
  \<comment> \<open>the loop \<open>for line in lines\<close>, the last argument being \<open>image_list\<close> so far\<close>
  "read_manifest fs a [] image_list = Inr image_list"
| "read_manifest fs a (line # lines) image_list =
     (case rgb_img_loc a line of
        Inl e \<Rightarrow> Inl e
      | Inr loc \<Rightarrow>
          if \<not> isfile fs loc then print_error_message (loc @ '' image file does not exist'')
          else read_manifest fs a lines (image_list @ [loc]))"

definition enumerate_images :: "file_system \<Rightarrow> args \<Rightarrow> error + (string option \<times> string list)" where
  \<comment> \<open>the \<open>if\<close>/\<open>elif\<close>/\<open>else\<close> of lines 100 to 119; it leaves the local variables
     \<open>image_path\<close> (bound in the first branch only) and \<open>image_list\<close>\<close>
  "enumerate_images fs a =
     (if dataset a = ''city'' then
        let image_path = city_image_path a;
            image_list = glob_glob fs image_path
        in Inr (Some image_path, image_list)
      else if dataset a = ''pascal'' then
        let data_file = voc_data_file a in
        if \<not> isfile fs data_file then print_error_message (data_file @ '' file does not exist'')
        else (case file_lines fs data_file of
                None \<Rightarrow> Inl (OSError data_file)
              | Some lines \<Rightarrow>
                  (case read_manifest fs a lines [] of
                     Inl e \<Rightarrow> Inl e
                   | Inr image_list \<Rightarrow> Inr (None, image_list)))
      else print_error_message (dataset a @ '' dataset not yet supported''))"

definition load_dataset :: "file_system \<Rightarrow> args \<Rightarrow> error + string list" where
  "load_dataset fs a =
     (case enumerate_images fs a of
        Inl e \<Rightarrow> Inl e
      | Inr (image_path, image_list) \<Rightarrow>
          if length image_list = 0 then
            (case image_path of
               None \<Rightarrow> Inl (UnboundLocalError ''image_path'')
             | Some p \<Rightarrow> print_error_message (''No files in directory: '' @ p))
          else Inr (take 5 image_list))"

subsection \<open>Concrete arguments and file systems\<close>

definition city_args :: args where
  "city_args =
     \<lparr>dataset = ''city'', data_path = ''/data/cityscapes/'', split = ''val'',
      savedir = ''results_city_val/results''\<rparr>"

definition pascal_args :: args where
  "pascal_args =
     \<lparr>dataset = ''pascal'', data_path = ''/data/voc'', split = ''val'',
      savedir = ''results_pascal/results/VOC2012/Segmentation/comp6_val_cls''\<rparr>"

definition scan_ba :: file_system where
  \<comment> \<open>two city images, enumerated by \<open>glob\<close> with \<open>munster\<close> before \<open>lindau\<close>\<close>
  "scan_ba =
     \<lparr>glob_glob = (\<lambda>pattern.
        if pattern = ''/data/cityscapes/leftImg8bit/val/*/*.png''
        then [''/data/cityscapes/leftImg8bit/val/munster/m_1.png'',
              ''/data/cityscapes/leftImg8bit/val/lindau/l_1.png'']
        else []),
      isfile = (\<lambda>path. False),
      file_lines = (\<lambda>path. None)\<rparr>"

definition scan_ab :: file_system where
  \<comment> \<open>the same two images, enumerated the other way round\<close>
  "scan_ab =
     \<lparr>glob_glob = (\<lambda>pattern.
        if pattern = ''/data/cityscapes/leftImg8bit/val/*/*.png''
        then [''/data/cityscapes/leftImg8bit/val/lindau/l_1.png'',
              ''/data/cityscapes/leftImg8bit/val/munster/m_1.png'']
        else []),
      isfile = (\<lambda>path. False),
      file_lines = (\<lambda>path. None)\<rparr>"

definition scan_ba_elsewhere :: file_system where
  \<comment> \<open>as \<open>scan_ba\<close>, with another answer for a pattern and a file that \<open>load_dataset\<close>
     does not ask about\<close>
  "scan_ba_elsewhere =
     scan_ba
       \<lparr>glob_glob := (glob_glob scan_ba) (''/tmp/*'' := [''/tmp/x'']),
        file_lines := (\<lambda>path. if path = ''/tmp/x'' then Some [] else None)\<rparr>"

definition scan_seven :: file_system where
  \<comment> \<open>seven city images\<close>
  "scan_seven =
     \<lparr>glob_glob = (\<lambda>pattern.
        if pattern = ''/data/cityscapes/leftImg8bit/val/*/*.png''
        then [''g/1.png'', ''g/2.png'', ''g/3.png'', ''g/4.png'', ''g/5.png'', ''g/6.png'',
              ''g/7.png'']
        else []),
      isfile = (\<lambda>path. False),
      file_lines = (\<lambda>path. None)\<rparr>"

definition voc_empty_manifest :: file_system where
  \<comment> \<open>the manifest \<open>val.txt\<close> exists and has no line\<close>
  "voc_empty_manifest =
     \<lparr>glob_glob = (\<lambda>pattern. []),
      isfile = (\<lambda>path. path = ''/data/voc/VOC2012/list/val.txt''),
      file_lines = (\<lambda>path. if path = ''/data/voc/VOC2012/list/val.txt'' then Some [] else None)\<rparr>"

definition voc_missing_image :: file_system where
  \<comment> \<open>the manifest lists two images; the second one is not on the disk\<close>
  "voc_missing_image =
     \<lparr>glob_glob = (\<lambda>pattern. []),
      isfile = (\<lambda>path. path = ''/data/voc/VOC2012/list/val.txt''
                      \<or> path = ''/data/voc/VOC2012/JPEGImages/a.jpg''),
      file_lines = (\<lambda>path.
        if path = ''/data/voc/VOC2012/list/val.txt''
        then Some [''JPEGImages/a.jpg SegmentationClass/a.png\<newline>'',
                   ''JPEGImages/b.jpg SegmentationClass/b.png\<newline>'']
        else None)\<rparr>"

definition voc_blank_line :: file_system where
  \<comment> \<open>the manifest starts with a blank line; the image listed after it is not on the disk\<close>
  "voc_blank_line =
     \<lparr>glob_glob = (\<lambda>pattern. []),
      isfile = (\<lambda>path. path = ''/data/voc/VOC2012/list/val.txt''),
      file_lines = (\<lambda>path.
        if path = ''/data/voc/VOC2012/list/val.txt''
        then Some [''\<newline>'', ''JPEGImages/b.jpg SegmentationClass/b.png\<newline>'']
        else None)\<rparr>"

definition voc_no_manifest :: file_system where
  \<comment> \<open>nothing on the disk\<close>
  "voc_no_manifest =
     \<lparr>glob_glob = (\<lambda>pattern. []), isfile = (\<lambda>path. False), file_lines = (\<lambda>path. None)\<rparr>"

section \<open>Naming the output file in \<open>evaluate\<close>\<close>

definition save_name :: "args \<Rightarrow> string \<Rightarrow> string" where
  \<comment> \<open>lines 92 to 94: \<open>name = imgName.split('/')[-1]\<close>,
     \<open>img_extn = imgName.split('.')[-1]\<close>,
     \<open>'{}/{}'.format(args.savedir, name.replace(img_extn, 'png'))\<close>\<close>
  "save_name a imgName =
     (let name = last (split_sep CHR ''/'' imgName);
          img_extn = last (split_sep CHR ''.'' imgName)
      in savedir a @ ''/'' @ py_replace name img_extn ''png'')"

section \<open>Resizing the label map\<close>

text \<open>
  \<open>Image.fromarray(img_out)\<close> wraps the label array, a list of rows, as an image whose
  height is the number of rows and whose width is the length of a row.
  \<open>img_out.resize((w, h), Image.NEAREST)\<close> is a call into the imaging library, which is
  not among the sources. For each axis the library builds a table that gives, for every
  output cell, the input cell to copy; it computes the table from the two sizes in floating
  point. The table is a parameter \<open>index\<close> here: \<open>index n_in n_out i\<close> is the input cell
  taken for output cell \<open>i\<close> when an axis of \<open>n_in\<close> cells becomes one of \<open>n_out\<close> cells.
\<close>

definition height :: "'a list list \<Rightarrow> nat" where
  "height img = length img"

definition width :: "'a list list \<Rightarrow> nat" where
  "width img = (case img of [] \<Rightarrow> 0 | row # _ \<Rightarrow> length row)"

definition rectangular :: "'a list list \<Rightarrow> bool" where
  \<comment> \<open>a two-dimensional array with at least one cell: all rows as long as the first\<close>
  "rectangular img = (0 < height img \<and> 0 < width img \<and> list_all (\<lambda>row. length row = width img) img)"

definition in_range :: "(nat \<Rightarrow> nat \<Rightarrow> nat \<Rightarrow> nat) \<Rightarrow> bool" where
  \<comment> \<open>the table never points outside the input: the library copies a cell only after
     checking this\<close>
  "in_range index = (\<forall>n_in n_out i. 0 < n_in \<and> i < n_out \<longrightarrow> index n_in n_out i < n_in)"

definition resize_nearest ::
  "(nat \<Rightarrow> nat \<Rightarrow> nat \<Rightarrow> nat) \<Rightarrow> nat \<times> nat \<Rightarrow> 'a list list \<Rightarrow> 'a list list" where
  \<comment> \<open>Modelled from the spec: \<open>Image.resize\<close> is library code, not among the sources. The
     specification has the label map resized with nearest-neighbour interpolation, label
     values never interpolated or blended: every cell of \<open>img.resize((w, h), Image.NEAREST)\<close>
     is a copy of one input cell, its row and its column chosen by \<open>index\<close>.\<close>
  "resize_nearest index wh img =
     (case wh of (w, h) \<Rightarrow>
        map (\<lambda>y. map (\<lambda>x. img ! index (height img) h y ! index (width img) w x) [0..<w])
            [0..<h])"

definition centre_index :: "nat \<Rightarrow> nat \<Rightarrow> nat \<Rightarrow> nat" where
  \<comment> \<open>the input cell under the centre of output cell \<open>i\<close>, \<open>\<lfloor>(i + 1/2) * n_in / n_out\<rfloor>\<close>.
     The library adds up the same coordinates in floating point; its sums are exact, and
     its table is this one, where an axis is halved, doubled or kept, as in the examples
     below. For other sizes the library's table can differ by one cell where a centre falls
     on the border of two cells, and this definition is not used there.\<close>
  "centre_index n_in n_out i = ((2 * i + 1) * n_in) div (2 * n_out)"

definition labels :: "'a list list \<Rightarrow> 'a set" where
  \<comment> \<open>the distinct label values present\<close>
  "labels img = set (concat img)"

definition four_by_two :: "uint8 list list" where
  \<comment> \<open>a label map two rows high and four cells wide\<close>
  "four_by_two = [[0, 1, 2, 3], [4, 5, 6, 7]]"

definition two_labels :: "uint8 list list" where
  \<comment> \<open>a label map one row high and two cells wide\<close>
  "two_labels = [[1, 2]]"

section \<open>Freezing the parameters of a module tree\<close>

text \<open>
  A \<open>torch.nn.Module\<close> as the traversal sees it: the parameters registered on the
  module itself, and the pairs that \<open>named_children()\<close> yields. A parameter is an
  object, named here by its address, so that one parameter can be registered in several
  modules; its flag \<open>requires_grad\<close> lives in a store. \<open>module.parameters()\<close> walks the
  module and everything below it in pre-order and yields every parameter object once,
  remembering the ones it has yielded. The modules form a tree, so the recursion of
  \<open>_freeze\<close> ends. A name cannot begin with an underscore here: \<open>_freeze\<close> is
  \<open>freeze\<close> and \<open>_count_freeze\<close> is \<open>count_freeze\<close>.

  The assignment \<open>param.requires_grad = True\<close> raises \<open>RuntimeError\<close> when the
  parameter's dtype is neither floating point nor complex; assigning \<open>False\<close> never
  raises. An exception ends the loops of \<open>_freeze\<close> where it is raised, and the flags set
  until then stay set: the loops return the error, if any, and the store as they leave it.
\<close>

datatype module = Module (own_parameters: "nat list") (named_children: "(string \<times> module) list")

type_synonym grads = "nat \<Rightarrow> bool"

type_synonym dtypes = "nat \<Rightarrow> bool"

fun registered :: "module \<Rightarrow> nat list" where
  \<comment> \<open>every registration of a parameter in the module and below it, in pre-order\<close>
  "registered (Module ps cs) = ps @ concat (map (\<lambda>(name, child). registered child) cs)"

fun unseen :: "nat list \<Rightarrow> nat list \<Rightarrow> nat list" where
  \<comment> \<open>\<open>unseen memo vs\<close>: the members of \<open>vs\<close> not in \<open>memo\<close>, each at its first place\<close>
  "unseen memo [] = []"
| "unseen memo (v # vs) = (if v \<in> set memo then unseen memo vs else v # unseen (v # memo) vs)"

definition parameters :: "module \<Rightarrow> nat list" where
  \<comment> \<open>\<open>module.parameters()\<close>\<close>
  "parameters m = unseen [] (registered m)"

definition assign_requires_grad :: "dtypes \<Rightarrow> nat \<Rightarrow> bool \<Rightarrow> grads \<Rightarrow> error + grads" where
  \<comment> \<open>\<open>param.requires_grad = v\<close>; \<open>floating param\<close> says that the dtype of \<open>param\<close> is
     floating point or complex\<close>
  "assign_requires_grad floating param v g =
     (if v \<and> \<not> floating param then Inl RuntimeError else Inr (g(param := v)))"

fun set_flags :: "dtypes \<Rightarrow> bool \<Rightarrow> nat list \<Rightarrow> grads \<Rightarrow> error option \<times> grads" where
  \<comment> \<open>the loop \<open>for param in child.parameters(): param.requires_grad = v\<close>\<close>
  "set_flags floating v [] g = (None, g)"
| "set_flags floating v (param # params) g =
     (case assign_requires_grad floating param v g of
        Inl e \<Rightarrow> (Some e, g)
      | Inr g' \<Rightarrow> set_flags floating v params g')"

fun freeze :: "dtypes \<Rightarrow> module \<Rightarrow> bool \<Rightarrow> grads \<Rightarrow> error option \<times> grads"
  and freeze_children ::
    "dtypes \<Rightarrow> (string \<times> module) list \<Rightarrow> bool \<Rightarrow> grads \<Rightarrow> error option \<times> grads" where
  \<comment> \<open>\<open>_freeze(model, freeze)\<close>, and its loop over \<open>model.named_children()\<close>\<close>
  "freeze floating (Module ps cs) frz g = freeze_children floating cs frz g"
| "freeze_children floating [] frz g = (None, g)"
| "freeze_children floating ((name, child) # cs) frz g =
     (case set_flags floating (\<not> frz) (parameters child) g of
        (Some e, g') \<Rightarrow> (Some e, g')
      | (None, g') \<Rightarrow>
          (case freeze floating child frz g' of
             (Some e, g'') \<Rightarrow> (Some e, g'')
           | (None, g'') \<Rightarrow> freeze_children floating cs frz g''))"

fun count_freeze :: "module \<Rightarrow> grads \<Rightarrow> nat \<times> nat" where
  \<comment> \<open>\<open>_count_freeze(model)\<close>; the value of the recursive call is dropped\<close>
  "count_freeze (Module ps cs) g =
     fold (\<lambda>(name, child) counts.
             let counts' =
                   fold (\<lambda>param (count_requires_grad, count_not_requires_grad).
                           if g param = True then (count_requires_grad + 1, count_not_requires_grad)
                           else (count_requires_grad, count_not_requires_grad + 1))
                        (parameters child) counts;
                 dropped = count_freeze child g
             in counts')
          cs (0, 0)"

definition base_net :: "module \<Rightarrow> error + module" where
  \<comment> \<open>the attribute \<open>model.base_net\<close>: the child registered under that name\<close>
  "base_net model =
     (case map_of (named_children model) ''base_net'' of
        None \<Rightarrow> Inl (AttributeError ''base_net'')
      | Some b \<Rightarrow> Inr b)"

definition freeze_base :: "dtypes \<Rightarrow> module \<Rightarrow> grads \<Rightarrow> error + (grads \<times> nat \<times> nat)" where
  \<comment> \<open>\<open>_freeze(model.base_net, freeze=True)\<close>, then the \<open>print\<close>: the new flags, and the
     two counts that are printed\<close>
  "freeze_base floating model g =
     (case base_net model of
        Inl e \<Rightarrow> Inl e
      | Inr b \<Rightarrow>
          (case freeze floating b True g of
             (Some e, g') \<Rightarrow> Inl e
           | (None, g') \<Rightarrow> Inr (g', fst (count_freeze model g'), snd (count_freeze model g'))))"

fun descendants :: "module \<Rightarrow> module list" where
  \<comment> \<open>the modules below a module, depth-first through \<open>named_children\<close>\<close>
  "descendants (Module ps cs) = concat (map (\<lambda>(name, child). child # descendants child) cs)"

definition descendant_parameters :: "module \<Rightarrow> nat set" where
  \<comment> \<open>the parameters registered on some module below \<open>m\<close>\<close>
  "descendant_parameters m = (\<Union>d \<in> set (descendants m). set (own_parameters d))"

definition all_trainable :: grads where
  \<comment> \<open>every parameter has \<open>requires_grad = True\<close>\<close>
  "all_trainable = (\<lambda>param. True)"

definition some_frozen :: grads where
  \<comment> \<open>the parameters 0, 1 and 2 have \<open>requires_grad = True\<close>, the others not\<close>
  "some_frozen = (\<lambda>param. param < 3)"

definition all_floating :: dtypes where
  \<comment> \<open>every parameter is a floating-point tensor\<close>
  "all_floating = (\<lambda>param. True)"

definition integer_2 :: dtypes where
  \<comment> \<open>parameter 2 is an integer tensor, the others are floating-point tensors\<close>
  "integer_2 = (\<lambda>param. param \<noteq> 2)"

definition none_trainable :: grads where
  \<comment> \<open>every parameter has \<open>requires_grad = False\<close>\<close>
  "none_trainable = (\<lambda>param. False)"

definition tiny_base :: module where
  \<comment> \<open>a base network: one parameter of its own, and two levels\<close>
  "tiny_base = Module [1] [(''level1'', Module [2, 3] []), (''level2'', Module [4] [])]"

definition tiny_model :: module where
  \<comment> \<open>a segmentation model: a base network of two levels, and a head\<close>
  "tiny_model =
     Module [0]
       [(''base_net'', Module [1] [(''level1'', Module [2, 3] []), (''level2'', Module [4] [])]),
        (''head'', Module [5] [])]"

definition tied_model :: module where
  \<comment> \<open>two children that register the same parameter object 0 (tied weights), and one
     parameter each of their own\<close>
  "tied_model = Module [] [(''encoder'', Module [0, 1] []), (''decoder'', Module [0, 2] [])]"

section \<open>Properties of \<open>relabel\<close>\<close>

lemma fold_assign_where:
  "fold (\<lambda>(k, v). assign_where img k v) rs h =
     h(img := map (map (fold (\<lambda>(k, v) y. if y = k then v else y) rs)) (h img))"
proof (induction rs arbitrary: h)
  case Nil
  show ?case by (simp add: map_idI)
next
  case (Cons r rs)
  obtain k v where r: "r = (k, v)" by (cases r)
  let ?F = "fold (\<lambda>(k, v) y. if y = k then v else y) rs"
  let ?h = "assign_where img k v h"
  have "fold (\<lambda>(k, v). assign_where img k v) (r # rs) h
          = fold (\<lambda>(k, v). assign_where img k v) rs ?h"
    by (simp add: r)
  also have "\<dots> = ?h(img := map (map ?F) (?h img))"
    by (rule Cons.IH)
  also have "\<dots> = h(img := map (map (?F \<circ> (\<lambda>x. if x = k then v else x))) (h img))"
    by (simp add: assign_where_def)
  finally show ?case
    by (simp add: r comp_def)
qed

lemma relabel_store: "snd (relabel img h) = h(img := map (map relabel_cell) (h img))"
  unfolding relabel_def relabel_cell_def by (simp add: fold_assign_where)

lemma relabel_cell_table:
  "relabel_cell x = (if x = 19 \<or> x = 255 then 0 else documented_table x)"
proof (cases "x \<in> {0, 1, 2, 3, 4, 5, 6, 7, 8, 9, 10, 11, 12, 13, 14, 15, 16, 17, 18, 19, 255}")
  case True
  then have "x = 0 \<or> x = 1 \<or> x = 2 \<or> x = 3 \<or> x = 4 \<or> x = 5 \<or> x = 6 \<or> x = 7 \<or> x = 8 \<or> x = 9
      \<or> x = 10 \<or> x = 11 \<or> x = 12 \<or> x = 13 \<or> x = 14 \<or> x = 15 \<or> x = 16 \<or> x = 17 \<or> x = 18
      \<or> x = 19 \<or> x = 255"
    by simp
  then show ?thesis
    by (elim disjE) (simp_all add: relabel_cell_def relabel_rules_def documented_table_def)
next
  case False
  then show ?thesis
    by (simp add: relabel_cell_def relabel_rules_def documented_table_def)
qed

lemma relabel_identity_check:
  "snd (relabel 0 identity_store) 0 =
     [[7, 8, 11, 12, 13, 17, 19, 20, 21, 22, 23, 24, 25, 26, 27, 28, 31, 32, 33, 0, 0]]"
  by (simp add: relabel_store identity_store_def identity_check_def relabel_cell_table
      documented_table_def)

subsection \<open>The table that \<open>relabel\<close> realises\<close>

text \<open>
  C1 (as stated): on an array that holds each of 0, ..., 19 and 255 once, \<open>relabel\<close>
  yields the documented values 7, 8, 11, 12, 13, 17, 19, 20, 21, 22, 23, 24, 25, 26, 27, 28,
  31, 32, 33, 255, 0. The code does not: the first assignment turns 19 into 255 and the
  last assignment turns every 255 into 0, so the cell that held 19 ends as 0.
\<close>

theorem relabel_identity_check_counterexample:
  "snd (relabel 0 identity_store) 0 \<noteq>
     [[7, 8, 11, 12, 13, 17, 19, 20, 21, 22, 23, 24, 25, 26, 27, 28, 31, 32, 33, 255, 0]]"
  by (simp add: relabel_identity_check)

text \<open>
  C1 (amended): \<open>relabel\<close> returns the array it was given, and every cell of it holds
  the documented value of the table for what it held before, except that a cell holding 19
  ends as 0 (19 is parked at 255 by the first assignment and shares the last assignment
  with 255). No other value is touched by a later assignment, and a value outside the
  table passes through.
\<close>

theorem relabel_table:
  "fst (relabel img h) = img \<and>
   snd (relabel img h) img =
     map (map (\<lambda>x. if x = 19 \<or> x = 255 then 0 else documented_table x)) (h img)"
proof -
  have "relabel_cell = (\<lambda>x. if x = 19 \<or> x = 255 then 0 else documented_table x)"
    by (rule ext) (rule relabel_cell_table)
  then show ?thesis
    by (simp add: relabel_store) (simp add: relabel_def)
qed

subsection \<open>The frame of \<open>relabel\<close>\<close>

text \<open>
  C2 (as stated): \<open>relabel\<close> writes into a fresh array and leaves the array passed in
  unchanged. The code returns the address it was given, and the array at that address has
  changed.
\<close>

theorem relabel_in_place_counterexample:
  "fst (relabel 0 identity_store) = 0 \<and>
   snd (relabel 0 identity_store) 0 \<noteq> identity_store 0"
  by (simp add: relabel_identity_check) (simp add: relabel_def identity_store_def identity_check_def)

text \<open>
  C2 (amended): \<open>relabel\<close> rewrites the array passed in, in place, and returns that
  same array: the result is the address given, the array there keeps its shape, and every
  other array of the store is left as it was.
\<close>

theorem relabel_frame:
  "fst (relabel img h) = img \<and>
   shape (snd (relabel img h) img) = shape (h img) \<and>
   (\<forall>r. r \<noteq> img \<longrightarrow> snd (relabel img h) r = h r)"
  by (simp add: relabel_store shape_def comp_def) (simp add: relabel_def)

theorem relabel_frame_witness:
  "fst (relabel 0 identity_store) = 0 \<and>
   shape (snd (relabel 0 identity_store) 0) = [21] \<and>
   snd (relabel 0 identity_store) 1 = identity_check"
  using relabel_frame [of 0 identity_store]
  by (simp add: identity_store_def identity_check_def shape_def)

section \<open>Properties of \<open>load_dataset\<close> and of the output name\<close>

lemma read_manifest_isfile:
  "isfile fs1 = isfile fs2 \<Longrightarrow> read_manifest fs1 a lines acc = read_manifest fs2 a lines acc"
  by (induction lines arbitrary: acc) (auto split: sum.splits)

lemma city_pattern: "city_image_path city_args = ''/data/cityscapes/leftImg8bit/val/*/*.png''"
  by (simp add: city_image_path_def city_args_def)

lemma voc_manifest: "voc_data_file pascal_args = ''/data/voc/VOC2012/list/val.txt''"
  by (simp add: voc_data_file_def pascal_args_def)

lemma city_selector: "dataset city_args = ''city''"
  by (simp add: city_args_def)

lemma pascal_selector: "dataset pascal_args = ''pascal''"
  by (simp add: pascal_args_def)

lemma load_dataset_city:
  "dataset a = ''city'' \<Longrightarrow>
   load_dataset fs a =
     (if glob_glob fs (city_image_path a) = []
      then Inl (ConfigError (''No files in directory: '' @ city_image_path a))
      else Inr (take 5 (glob_glob fs (city_image_path a))))"
  by (simp add: load_dataset_def enumerate_images_def print_error_message_def Let_def)

lemma glob_scan_ba:
  "glob_glob scan_ba (city_image_path city_args) =
     [''/data/cityscapes/leftImg8bit/val/munster/m_1.png'',
      ''/data/cityscapes/leftImg8bit/val/lindau/l_1.png'']"
  by (simp add: city_pattern scan_ba_def)

lemma glob_scan_ab:
  "glob_glob scan_ab (city_image_path city_args) =
     [''/data/cityscapes/leftImg8bit/val/lindau/l_1.png'',
      ''/data/cityscapes/leftImg8bit/val/munster/m_1.png'']"
  by (simp add: city_pattern scan_ab_def)

lemma munster_after_lindau:
  "\<not> sorted [''/data/cityscapes/leftImg8bit/val/munster/m_1.png'',
             ''/data/cityscapes/leftImg8bit/val/lindau/l_1.png'']"
  by (simp add: less_eq_char_def)

subsection \<open>Order of the enumeration\<close>

text \<open>
  C3 (as stated): the enumeration is deterministic, and the directory scan returns a sorted
  list that does not depend on the order in which the file system enumerates. The code
  returns what \<open>glob.glob\<close> yields, as it yields it: two file systems holding the same two
  images, enumerated in different orders, give different sequences, one of them unsorted.
\<close>

theorem load_dataset_unsorted_counterexample:
  "set (glob_glob scan_ba (city_image_path city_args)) =
     set (glob_glob scan_ab (city_image_path city_args)) \<and>
   load_dataset scan_ba city_args =
     Inr [''/data/cityscapes/leftImg8bit/val/munster/m_1.png'',
          ''/data/cityscapes/leftImg8bit/val/lindau/l_1.png''] \<and>
   \<not> sorted [''/data/cityscapes/leftImg8bit/val/munster/m_1.png'',
             ''/data/cityscapes/leftImg8bit/val/lindau/l_1.png''] \<and>
   load_dataset scan_ba city_args \<noteq> load_dataset scan_ab city_args"
proof (intro conjI)
  show "set (glob_glob scan_ba (city_image_path city_args)) =
     set (glob_glob scan_ab (city_image_path city_args))"
    unfolding glob_scan_ba glob_scan_ab by (simp add: insert_commute)
  show "load_dataset scan_ba city_args =
     Inr [''/data/cityscapes/leftImg8bit/val/munster/m_1.png'',
          ''/data/cityscapes/leftImg8bit/val/lindau/l_1.png'']"
    unfolding load_dataset_city [OF city_selector] glob_scan_ba by simp
  show "\<not> sorted [''/data/cityscapes/leftImg8bit/val/munster/m_1.png'',
             ''/data/cityscapes/leftImg8bit/val/lindau/l_1.png'']"
    by (rule munster_after_lindau)
  show "load_dataset scan_ba city_args \<noteq> load_dataset scan_ab city_args"
    unfolding load_dataset_city [OF city_selector] glob_scan_ba glob_scan_ab by simp
qed


text \<open>
  C3 (amended): \<open>load_dataset\<close> is a function of its arguments and of the answers of the
  file system, the order of \<open>glob\<close>'s enumeration included: two runs that get the same
  matches in the same order, the same answers of \<open>isfile\<close> and the same manifest lines
  return the same result. The directory scan returns the first five matches in the order
  \<open>glob\<close> enumerates them; nothing sorts them.
\<close>

theorem load_dataset_deterministic:
  assumes "glob_glob fs1 (city_image_path a) = glob_glob fs2 (city_image_path a)"
    and "isfile fs1 = isfile fs2"
    and "file_lines fs1 (voc_data_file a) = file_lines fs2 (voc_data_file a)"
  shows "load_dataset fs1 a = load_dataset fs2 a \<and>
    (dataset a = ''city'' \<and> glob_glob fs1 (city_image_path a) \<noteq> [] \<longrightarrow>
       load_dataset fs1 a = Inr (take 5 (glob_glob fs1 (city_image_path a))))"
proof
  have "read_manifest fs1 a lines [] = read_manifest fs2 a lines []" for lines
    by (rule read_manifest_isfile [OF assms(2)])
  then have "enumerate_images fs1 a = enumerate_images fs2 a"
    by (simp add: enumerate_images_def Let_def assms split: option.splits)
  then show "load_dataset fs1 a = load_dataset fs2 a"
    by (simp add: load_dataset_def)
  show "dataset a = ''city'' \<and> glob_glob fs1 (city_image_path a) \<noteq> [] \<longrightarrow>
       load_dataset fs1 a = Inr (take 5 (glob_glob fs1 (city_image_path a)))"
    by (simp add: load_dataset_city)
qed

lemma scan_ba_elsewhere_agrees:
  "glob_glob scan_ba (city_image_path city_args) = glob_glob scan_ba_elsewhere (city_image_path city_args)"
  "isfile scan_ba = isfile scan_ba_elsewhere"
  "file_lines scan_ba (voc_data_file city_args) = file_lines scan_ba_elsewhere (voc_data_file city_args)"
  by (simp_all add: city_pattern scan_ba_elsewhere_def)
     (simp add: scan_ba_def voc_data_file_def city_args_def)

theorem load_dataset_deterministic_witness:
  "load_dataset scan_ba city_args = load_dataset scan_ba_elsewhere city_args \<and>
   load_dataset scan_ba city_args =
     Inr [''/data/cityscapes/leftImg8bit/val/munster/m_1.png'',
          ''/data/cityscapes/leftImg8bit/val/lindau/l_1.png'']"
proof -
  note d = load_dataset_deterministic [OF scan_ba_elsewhere_agrees]
  from d have 1: "load_dataset scan_ba city_args = load_dataset scan_ba_elsewhere city_args"
    by (rule conjunct1)
  from d [THEN conjunct2] have 2: "load_dataset scan_ba city_args =
      Inr (take 5 (glob_glob scan_ba (city_image_path city_args)))"
    by (simp add: city_selector glob_scan_ba)
  from 2 have 3: "load_dataset scan_ba city_args =
      Inr [''/data/cityscapes/leftImg8bit/val/munster/m_1.png'',
           ''/data/cityscapes/leftImg8bit/val/lindau/l_1.png'']"
    by (simp add: glob_scan_ba)
  show ?thesis
    by (rule conjI [OF 1 3])
qed

subsection \<open>Truncation\<close>

text \<open>
  C4: whatever the selector and the directory hold, a list that \<open>load_dataset\<close> returns has
  at most five elements and is the first five entries of the enumerated sequence
  \<open>image_list\<close>; and whenever the enumeration yields a sequence that is not empty,
  \<open>load_dataset\<close> does return its first five entries.
\<close>

theorem load_dataset_first_five:
  "(\<forall>xs. load_dataset fs a = Inr xs \<longrightarrow>
      length xs \<le> 5 \<and>
      (\<exists>image_path image_list.
         enumerate_images fs a = Inr (image_path, image_list) \<and> xs = take 5 image_list)) \<and>
   (\<forall>image_path image_list.
      enumerate_images fs a = Inr (image_path, image_list) \<and> image_list \<noteq> [] \<longrightarrow>
      load_dataset fs a = Inr (take 5 image_list))"
  by (auto simp: load_dataset_def print_error_message_def split: sum.splits option.splits if_splits)

lemma enumerate_scan_seven:
  "enumerate_images scan_seven city_args =
     Inr (Some ''/data/cityscapes/leftImg8bit/val/*/*.png'',
          [''g/1.png'', ''g/2.png'', ''g/3.png'', ''g/4.png'', ''g/5.png'', ''g/6.png'',
           ''g/7.png''])"
  by (simp add: enumerate_images_def city_selector city_pattern scan_seven_def)

theorem load_dataset_first_five_witness:
  "load_dataset scan_seven city_args =
     Inr [''g/1.png'', ''g/2.png'', ''g/3.png'', ''g/4.png'', ''g/5.png''] \<and>
   enumerate_images scan_seven city_args =
     Inr (Some ''/data/cityscapes/leftImg8bit/val/*/*.png'',
          [''g/1.png'', ''g/2.png'', ''g/3.png'', ''g/4.png'', ''g/5.png'', ''g/6.png'',
           ''g/7.png''])"
proof -
  have "load_dataset scan_seven city_args =
      Inr (take 5 [''g/1.png'', ''g/2.png'', ''g/3.png'', ''g/4.png'', ''g/5.png'', ''g/6.png'',
           ''g/7.png''])"
    by (rule load_dataset_first_five [of scan_seven city_args, THEN conjunct2, rule_format])
       (simp add: enumerate_scan_seven)
  then show ?thesis
    by (simp add: enumerate_scan_seven)
qed

subsection \<open>No image found\<close>

lemma load_dataset_city_no_match:
  "dataset a = ''city'' \<Longrightarrow> glob_glob fs (city_image_path a) = [] \<Longrightarrow>
   load_dataset fs a = Inl (ConfigError (''No files in directory: '' @ city_image_path a))"
  by (simp add: load_dataset_city)

text \<open>
  C7: when no image is found, \<open>load_dataset\<close> is to report a configuration error. For the
  directory scan it does (\<open>load_dataset_city_no_match\<close>). For the manifest variant the
  diagnostic is built from \<open>image_path\<close>, a variable that only the directory-scan branch
  binds: with an empty manifest the run stops on the unbound variable, before any
  diagnostic is printed.
\<close>

theorem load_dataset_empty_manifest:
  "load_dataset voc_empty_manifest pascal_args = Inl (UnboundLocalError ''image_path'')"
  by (simp add: load_dataset_def enumerate_images_def pascal_selector voc_manifest
      voc_empty_manifest_def)

subsection \<open>Missing manifest, missing image\<close>

lemma read_manifest_prefix:
  "\<forall>l \<in> set pre. \<exists>p. rgb_img_loc a l = Inr p \<and> isfile fs p \<Longrightarrow>
   \<exists>acc'. read_manifest fs a (pre @ rest) acc = read_manifest fs a rest acc'"
proof (induction pre arbitrary: acc)
  case Nil
  show ?case by auto
next
  case (Cons l pre)
  from Cons.prems obtain p where p: "rgb_img_loc a l = Inr p" "isfile fs p"
    by auto
  from Cons.prems have "\<forall>l \<in> set pre. \<exists>p. rgb_img_loc a l = Inr p \<and> isfile fs p"
    by simp
  from Cons.IH [OF this, of "acc @ [p]"] show ?case
    by (simp add: p)
qed

lemma read_manifest_first_missing:
  assumes "\<forall>l \<in> set pre. \<exists>p. rgb_img_loc a l = Inr p \<and> isfile fs p"
    and "rgb_img_loc a line = Inr loc" and "\<not> isfile fs loc"
  shows "read_manifest fs a (pre @ line # post) acc =
           Inl (ConfigError (loc @ '' image file does not exist''))"
proof -
  from read_manifest_prefix [OF assms(1)] obtain acc' where
    "read_manifest fs a (pre @ line # post) acc = read_manifest fs a (line # post) acc'"
    by blast
  then show ?thesis
    by (simp add: assms(2,3) print_error_message_def)
qed

lemma rgb_img_loc_token: "py_split l \<noteq> [] \<Longrightarrow> \<exists>p. rgb_img_loc a l = Inr p"
  by (cases "py_split l") (simp_all add: rgb_img_loc_def)

lemma read_manifest_some_missing:
  assumes "\<forall>l \<in> set lines. py_split l \<noteq> []"
    and "\<exists>l \<in> set lines. \<exists>loc. rgb_img_loc a l = Inr loc \<and> \<not> isfile fs loc"
  shows "\<exists>l \<in> set lines. \<exists>loc. rgb_img_loc a l = Inr loc \<and> \<not> isfile fs loc \<and>
           read_manifest fs a lines acc = Inl (ConfigError (loc @ '' image file does not exist''))"
  using assms
proof (induction lines arbitrary: acc)
  case Nil
  then show ?case by simp
next
  case (Cons l lines)
  from Cons.prems(1) rgb_img_loc_token [of l a] obtain p where p: "rgb_img_loc a l = Inr p"
    by auto
  show ?case
  proof (cases "isfile fs p")
    case False
    then show ?thesis
      by (simp add: p print_error_message_def)
  next
    case True
    with Cons.prems(2) p
    have "\<exists>l \<in> set lines. \<exists>loc. rgb_img_loc a l = Inr loc \<and> \<not> isfile fs loc"
      by auto
    moreover from Cons.prems(1) have "\<forall>l \<in> set lines. py_split l \<noteq> []"
      by simp
    ultimately obtain l' loc where
      "l' \<in> set lines" "rgb_img_loc a l' = Inr loc" "\<not> isfile fs loc"
      "read_manifest fs a lines (acc @ [p]) = Inl (ConfigError (loc @ '' image file does not exist''))"
      using Cons.IH [of "acc @ [p]"] by blast
    then show ?thesis
      using True p by auto
  qed
qed

lemma load_dataset_pascal:
  "dataset a = ''pascal'' \<Longrightarrow> isfile fs (voc_data_file a) \<Longrightarrow>
   file_lines fs (voc_data_file a) = Some lines \<Longrightarrow>
   read_manifest fs a lines [] = Inl e \<Longrightarrow> load_dataset fs a = Inl e"
  by (simp add: load_dataset_def enumerate_images_def)

text \<open>
  C8: for the manifest variant, a missing manifest file is a configuration error, and so is
  a listed image that is not on the disk, with a diagnostic that names the missing path.
  The manifest is read line by line and the run stops at the first line that fails: in a
  manifest whose lines all hold an identifier, a missing image is reported; more exactly, the
  first missing image is reported whenever every line before it holds an identifier of an
  existing image.
\<close>

theorem load_dataset_manifest_errors:
  assumes "dataset a = ''pascal''"
  shows "(\<not> isfile fs (voc_data_file a) \<longrightarrow>
            load_dataset fs a = Inl (ConfigError (voc_data_file a @ '' file does not exist''))) \<and>
         (\<forall>lines. isfile fs (voc_data_file a) \<and> file_lines fs (voc_data_file a) = Some lines \<and>
            (\<forall>l \<in> set lines. py_split l \<noteq> []) \<and>
            (\<exists>l \<in> set lines. \<exists>loc. rgb_img_loc a l = Inr loc \<and> \<not> isfile fs loc) \<longrightarrow>
            (\<exists>l \<in> set lines. \<exists>loc. rgb_img_loc a l = Inr loc \<and> \<not> isfile fs loc \<and>
               load_dataset fs a = Inl (ConfigError (loc @ '' image file does not exist'')))) \<and>
         (\<forall>pre line post loc.
            isfile fs (voc_data_file a) \<and> file_lines fs (voc_data_file a) = Some (pre @ line # post) \<and>
            (\<forall>l \<in> set pre. \<exists>p. rgb_img_loc a l = Inr p \<and> isfile fs p) \<and>
            rgb_img_loc a line = Inr loc \<and> \<not> isfile fs loc \<longrightarrow>
            load_dataset fs a = Inl (ConfigError (loc @ '' image file does not exist'')))"
proof (intro conjI allI impI)
  assume "\<not> isfile fs (voc_data_file a)"
  then show "load_dataset fs a = Inl (ConfigError (voc_data_file a @ '' file does not exist''))"
    using assms by (simp add: load_dataset_def enumerate_images_def print_error_message_def)
next
  fix lines
  assume h: "isfile fs (voc_data_file a) \<and> file_lines fs (voc_data_file a) = Some lines \<and>
            (\<forall>l \<in> set lines. py_split l \<noteq> []) \<and>
            (\<exists>l \<in> set lines. \<exists>loc. rgb_img_loc a l = Inr loc \<and> \<not> isfile fs loc)"
  then obtain l loc where "l \<in> set lines" "rgb_img_loc a l = Inr loc" "\<not> isfile fs loc"
    "read_manifest fs a lines [] = Inl (ConfigError (loc @ '' image file does not exist''))"
    using read_manifest_some_missing [where lines = lines and fs = fs and a = a and acc = "[]"] by blast
  moreover from this(4) h assms
  have "load_dataset fs a = Inl (ConfigError (loc @ '' image file does not exist''))"
    by (simp add: load_dataset_pascal)
  ultimately show "\<exists>l \<in> set lines. \<exists>loc. rgb_img_loc a l = Inr loc \<and> \<not> isfile fs loc \<and>
               load_dataset fs a = Inl (ConfigError (loc @ '' image file does not exist''))"
    by blast
next
  fix pre line post loc
  assume h: "isfile fs (voc_data_file a) \<and> file_lines fs (voc_data_file a) = Some (pre @ line # post) \<and>
            (\<forall>l \<in> set pre. \<exists>p. rgb_img_loc a l = Inr p \<and> isfile fs p) \<and>
            rgb_img_loc a line = Inr loc \<and> \<not> isfile fs loc"
  then have "read_manifest fs a (pre @ line # post) [] =
      Inl (ConfigError (loc @ '' image file does not exist''))"
    by (simp add: read_manifest_first_missing)
  with h assms show "load_dataset fs a = Inl (ConfigError (loc @ '' image file does not exist''))"
    by (simp add: load_dataset_pascal)
qed

lemma loc_a:
  "rgb_img_loc pascal_args ''JPEGImages/a.jpg SegmentationClass/a.png\<newline>'' =
     Inr ''/data/voc/VOC2012/JPEGImages/a.jpg''"
  by (simp add: rgb_img_loc_def py_split_def isspace_def pascal_args_def)

lemma loc_b:
  "rgb_img_loc pascal_args ''JPEGImages/b.jpg SegmentationClass/b.png\<newline>'' =
     Inr ''/data/voc/VOC2012/JPEGImages/b.jpg''"
  by (simp add: rgb_img_loc_def py_split_def isspace_def pascal_args_def)

lemma voc_missing_image_answers:
  "isfile voc_missing_image (voc_data_file pascal_args)"
  "file_lines voc_missing_image (voc_data_file pascal_args) =
     Some ([''JPEGImages/a.jpg SegmentationClass/a.png\<newline>''] @
           ''JPEGImages/b.jpg SegmentationClass/b.png\<newline>'' # [])"
  "isfile voc_missing_image ''/data/voc/VOC2012/JPEGImages/a.jpg''"
  "\<not> isfile voc_missing_image ''/data/voc/VOC2012/JPEGImages/b.jpg''"
  by (simp_all add: voc_manifest voc_missing_image_def)

theorem load_dataset_manifest_errors_witness:
  "dataset pascal_args = ''pascal'' \<and>
   load_dataset voc_no_manifest pascal_args =
     Inl (ConfigError ''/data/voc/VOC2012/list/val.txt file does not exist'') \<and>
   load_dataset voc_missing_image pascal_args =
     Inl (ConfigError ''/data/voc/VOC2012/JPEGImages/b.jpg image file does not exist'')"
proof -
  note t = load_dataset_manifest_errors [OF pascal_selector]
  have "\<not> isfile voc_no_manifest (voc_data_file pascal_args)"
    by (simp add: voc_no_manifest_def)
  with t [of voc_no_manifest] have 1: "load_dataset voc_no_manifest pascal_args =
      Inl (ConfigError (voc_data_file pascal_args @ '' file does not exist''))"
    by blast
  have 2: "load_dataset voc_missing_image pascal_args =
      Inl (ConfigError (''/data/voc/VOC2012/JPEGImages/b.jpg'' @ '' image file does not exist''))"
    by (rule t [of voc_missing_image, THEN conjunct2, THEN conjunct2, rule_format,
          where pre = "[''JPEGImages/a.jpg SegmentationClass/a.png\<newline>'']"
            and line = "''JPEGImages/b.jpg SegmentationClass/b.png\<newline>''"
            and post = "[]"])
       (simp add: voc_missing_image_answers loc_a loc_b)
  from 1 2 show ?thesis
    by (simp add: pascal_selector voc_manifest)
qed

text \<open>
  The hypothesis on the lines before the missing image is needed: a blank line has no first
  word, and \<open>line.split()[0]\<close> raises before the image after it is looked at.
\<close>

lemma load_dataset_blank_line:
  "load_dataset voc_blank_line pascal_args = Inl IndexError"
  by (simp add: load_dataset_def enumerate_images_def pascal_selector voc_manifest
      voc_blank_line_def rgb_img_loc_def py_split_def isspace_def)

subsection \<open>The name of the output file\<close>

lemma split_sep_not_Nil: "split_sep sep s \<noteq> []"
  by (induction s) (auto split: list.splits)

lemma split_sep_absent: "sep \<notin> set s \<Longrightarrow> split_sep sep s = [s]"
  by (induction s) auto

lemma split_sep_append:
  "\<exists>pre. pre \<noteq> [] \<and> split_sep sep (xs @ sep # ys) = pre @ split_sep sep ys"
proof (induction xs)
  case Nil
  have "split_sep sep ([] @ sep # ys) = [[]] @ split_sep sep ys" by simp
  then show ?case by blast
next
  case (Cons x xs)
  then obtain p ps where pre: "split_sep sep (xs @ sep # ys) = (p # ps) @ split_sep sep ys"
    by (metis neq_Nil_conv)
  show ?case
  proof (cases "x = sep")
    case True
    with pre have "split_sep sep ((x # xs) @ sep # ys) = ([] # p # ps) @ split_sep sep ys"
      by simp
    then show ?thesis by blast
  next
    case False
    with pre have "split_sep sep ((x # xs) @ sep # ys) = ((x # p) # ps) @ split_sep sep ys"
      by simp
    then show ?thesis by blast
  qed
qed

lemma last_split_sep_append:
  "last (split_sep sep (xs @ sep # ys)) = last (split_sep sep ys)"
proof -
  from split_sep_append [of sep xs ys] obtain pre
    where "split_sep sep (xs @ sep # ys) = pre @ split_sep sep ys"
    by blast
  then show ?thesis
    by (simp add: split_sep_not_Nil)
qed

lemma last_split_sep:
  "sep \<notin> set ys \<Longrightarrow> last (split_sep sep (xs @ sep # ys)) = ys"
  by (simp add: last_split_sep_append split_sep_absent)

lemma replace_suffix_only:
  assumes "old \<noteq> []"
    and "\<forall>i < length stem. take (length old) (drop i (stem @ old)) \<noteq> old"
  shows "replace_nonempty (stem @ old) old new = stem @ new"
  using assms(2)
proof (induction stem)
  case Nil
  from assms(1) obtain c cs where "old = c # cs" by (cases old) auto
  then show ?case by simp
next
  case (Cons c stem)
  from Cons.prems have "take (length old) (drop 0 ((c # stem) @ old)) \<noteq> old"
    by blast
  then have first: "take (length old) (c # stem @ old) \<noteq> old"
    by simp
  have "\<forall>i < length stem. take (length old) (drop i (stem @ old)) \<noteq> old"
  proof (intro allI impI)
    fix i assume "i < length stem"
    then have "Suc i < length (c # stem)" by simp
    with Cons.prems have "take (length old) (drop (Suc i) ((c # stem) @ old)) \<noteq> old"
      by blast
    then show "take (length old) (drop i (stem @ old)) \<noteq> old" by simp
  qed
  with Cons.IH have "replace_nonempty (stem @ old) old new = stem @ new" .
  with first show ?case by simp
qed

text \<open>
  Where the extension's text occurs in the base name only as its end, the output is named
  as intended.
\<close>

lemma save_name_plain:
  assumes "CHR ''/'' \<notin> set stem" and "CHR ''/'' \<notin> set ext" and "CHR ''.'' \<notin> set ext"
    and "ext \<noteq> []"
    and "\<forall>i < length stem + 1. take (length ext) (drop i (stem @ ''.'' @ ext)) \<noteq> ext"
  shows "save_name a (dir @ ''/'' @ stem @ ''.'' @ ext) = savedir a @ ''/'' @ stem @ ''.png''"
proof -
  have "CHR ''/'' \<notin> set (stem @ ''.'' @ ext)"
    using assms(1,2) by simp
  then have name: "last (split_sep CHR ''/'' (dir @ ''/'' @ stem @ ''.'' @ ext)) = stem @ ''.'' @ ext"
    using last_split_sep [of "CHR ''/''" "stem @ ''.'' @ ext" dir] by simp
  have extn: "last (split_sep CHR ''.'' (dir @ ''/'' @ stem @ ''.'' @ ext)) = ext"
    using last_split_sep [OF assms(3), of "dir @ ''/'' @ stem"] by simp
  have "replace_nonempty ((stem @ ''.'') @ ext) ext ''png'' = (stem @ ''.'') @ ''png''"
    using assms(5) by (intro replace_suffix_only [OF assms(4)]) simp
  then show ?thesis
    unfolding save_name_def name extn py_replace_def
    by (simp add: Let_def assms(4))
qed

text \<open>
  C5: the output file is named after the input's base name with its extension replaced by
  \<open>png\<close>, nothing else altered. \<open>name.replace(img_extn, 'png')\<close> replaces every occurrence
  of the extension's text in the base name, not only the extension: for \<open>jpg_scan.jpg\<close> the
  code writes \<open>png_scan.png\<close>.
\<close>

theorem save_name_replaces_every_occurrence:
  "save_name pascal_args ''/data/voc/VOC2012/JPEGImages/jpg_scan.jpg'' =
     ''results_pascal/results/VOC2012/Segmentation/comp6_val_cls/png_scan.png''"
  by (simp add: save_name_def py_replace_def pascal_args_def)

section \<open>Properties of the nearest-neighbour resize\<close>

lemma rectangular_row: "rectangular img \<Longrightarrow> a < height img \<Longrightarrow> length (img ! a) = width img"
  by (simp add: rectangular_def height_def list_all_length)

lemma cell_in_labels:
  assumes "rectangular img" and "a < height img" and "b < width img"
  shows "img ! a ! b \<in> labels img"
proof -
  from assms have "img ! a ! b \<in> set (img ! a)"
    by (simp add: rectangular_row)
  moreover from assms(2) have "img ! a \<in> set img"
    by (simp add: height_def)
  ultimately show ?thesis
    by (auto simp: labels_def)
qed

lemma labels_cell:
  assumes "rectangular img" and "v \<in> labels img"
  shows "\<exists>a b. a < height img \<and> b < width img \<and> img ! a ! b = v"
proof -
  from assms(2) obtain row where row: "row \<in> set img" "v \<in> set row"
    by (auto simp: labels_def)
  then obtain a where a: "a < length img" "img ! a = row"
    by (auto simp: in_set_conv_nth)
  from row(2) obtain b where b: "b < length row" "row ! b = v"
    by (auto simp: in_set_conv_nth)
  from a b assms(1) have "b < width img"
    using rectangular_row [of img a] by (simp add: height_def)
  with a b show ?thesis
    by (auto simp: height_def)
qed

lemma labels_resize_iff:
  "v \<in> labels (resize_nearest index (w, h) img) \<longleftrightarrow>
   (\<exists>y < h. \<exists>x < w. v = img ! index (height img) h y ! index (width img) w x)"
  by (force simp: labels_def resize_nearest_def)

lemma labels_resize_subset:
  assumes "in_range index" and "rectangular img"
  shows "labels (resize_nearest index (w, h) img) \<subseteq> labels img"
proof
  fix v assume "v \<in> labels (resize_nearest index (w, h) img)"
  then obtain y x where yx: "y < h" "x < w"
    "v = img ! index (height img) h y ! index (width img) w x"
    by (auto simp: labels_resize_iff)
  from assms(2) have "0 < height img" "0 < width img"
    by (simp_all add: rectangular_def)
  with yx assms(1) have "index (height img) h y < height img"
    "index (width img) w x < width img"
    by (simp_all add: in_range_def)
  with assms(2) yx(3) show "v \<in> labels img"
    by (simp add: cell_in_labels)
qed

lemma labels_resize_onto:
  assumes "in_range index" and "rectangular img"
    and rows: "\<forall>a < height img. \<exists>y < h. index (height img) h y = a"
    and cols: "\<forall>b < width img. \<exists>x < w. index (width img) w x = b"
  shows "labels (resize_nearest index (w, h) img) = labels img"
proof
  show "labels (resize_nearest index (w, h) img) \<subseteq> labels img"
    by (rule labels_resize_subset [OF assms(1,2)])
  show "labels img \<subseteq> labels (resize_nearest index (w, h) img)"
  proof
    fix v assume "v \<in> labels img"
    from labels_cell [OF assms(2) this] obtain a b
      where ab: "a < height img" "b < width img" "img ! a ! b = v"
      by blast
    from rows ab(1) obtain y where y: "y < h" "index (height img) h y = a"
      by blast
    from cols ab(2) obtain x where x: "x < w" "index (width img) w x = b"
      by blast
    from y x ab(3)
    have "y < h \<and> (\<exists>x < w. v = img ! index (height img) h y ! index (width img) w x)"
      by auto
    then have "\<exists>y < h. \<exists>x < w. v = img ! index (height img) h y ! index (width img) w x"
      by (rule exI)
    then show "v \<in> labels (resize_nearest index (w, h) img)"
      by (simp only: labels_resize_iff)
  qed
qed

lemma rectangular_resize:
  assumes "0 < w" and "0 < h"
  shows "rectangular (resize_nearest index (w, h) img) \<and>
         width (resize_nearest index (w, h) img) = w \<and>
         height (resize_nearest index (w, h) img) = h"
proof -
  from assms(2) have "[0..<h] = 0 # [Suc 0..<h]"
    by (simp add: upt_conv_Cons)
  then have "width (resize_nearest index (w, h) img) = w"
    by (simp add: width_def resize_nearest_def)
  moreover have "height (resize_nearest index (w, h) img) = h"
    by (simp add: height_def resize_nearest_def)
  moreover have "list_all (\<lambda>row. length row = w) (resize_nearest index (w, h) img)"
    by (simp add: resize_nearest_def list_all_iff)
  ultimately show ?thesis
    using assms by (simp add: rectangular_def)
qed

lemma in_range_centre_index: "in_range centre_index"
proof -
  have "centre_index n_in n_out i < n_in" if "0 < n_in" and "i < n_out" for n_in n_out i
  proof -
    from that(2) have "2 * i + 1 < 2 * n_out" by simp
    then have "(2 * i + 1) * n_in < (2 * n_out) * n_in"
      using that(1) by (rule mult_less_mono1)
    then have "(2 * i + 1) * n_in < n_in * (2 * n_out)"
      by (simp only: mult.commute)
    then show ?thesis
      unfolding centre_index_def by (rule less_mult_imp_div_less)
  qed
  then show ?thesis
    by (simp add: in_range_def)
qed

lemma halve_four_by_two: "resize_nearest centre_index (2, 1) four_by_two = [[5, 7]]"
  by (simp add: resize_nearest_def centre_index_def four_by_two_def height_def width_def
      upt_conv_Cons)

text \<open>
  C6 (as stated): resizing a label map down to the model's input size and back up to its
  original size with nearest-neighbour resampling keeps the set of label values: none new,
  none lost. Downsizing samples fewer cells than there are: the map \<open>[[1, 2]]\<close> resized to
  one cell and back to two holds a single value, whichever of the two cells is sampled.
\<close>

theorem resize_round_trip_counterexample:
  "labels (resize_nearest centre_index (width two_labels, height two_labels)
             (resize_nearest centre_index (1, 1) two_labels))
     \<noteq> labels two_labels"
proof -
  have "resize_nearest centre_index (1, 1) two_labels = [[2]]"
    by (simp add: resize_nearest_def centre_index_def two_labels_def height_def width_def)
  moreover have "resize_nearest centre_index (2, 1) [[2 :: uint8]] = [[2, 2]]"
    by (simp add: resize_nearest_def centre_index_def height_def width_def upt_conv_Cons)
  moreover have "width two_labels = 2" "height two_labels = 1"
    by (simp_all add: two_labels_def height_def width_def)
  ultimately show ?thesis
    by (simp add: labels_def two_labels_def)
qed

text \<open>
  C6 (amended): a nearest-neighbour resize only copies cells. Whatever cells the library's
  tables pick inside the input, the resized label map holds no label value that the input
  did not hold; so resizing down and back up to the original size never introduces a value,
  and its result holds only values that the downsized map kept. A resize keeps every value
  when its tables reach every row and every column of its input; values in cells that a
  downsizing does not sample are lost.
\<close>

theorem resize_nearest_labels:
  assumes "in_range index" and "rectangular img" and "0 < w" and "0 < h"
  shows "labels (resize_nearest index (w, h) img) \<subseteq> labels img \<and>
         labels (resize_nearest index (width img, height img) (resize_nearest index (w, h) img))
           \<subseteq> labels (resize_nearest index (w, h) img) \<and>
         labels (resize_nearest index (width img, height img) (resize_nearest index (w, h) img))
           \<subseteq> labels img \<and>
         ((\<forall>a < height img. \<exists>y < h. index (height img) h y = a) \<and>
          (\<forall>b < width img. \<exists>x < w. index (width img) w x = b) \<longrightarrow>
            labels (resize_nearest index (w, h) img) = labels img)"
proof -
  let ?small = "resize_nearest index (w, h) img"
  have sub: "labels ?small \<subseteq> labels img"
    by (rule labels_resize_subset [OF assms(1,2)])
  from rectangular_resize [OF assms(3,4), of index img] have "rectangular ?small"
    by (rule conjunct1)
  then have up: "labels (resize_nearest index (width img, height img) ?small) \<subseteq> labels ?small"
    by (rule labels_resize_subset [OF assms(1)])
  from up sub have trip: "labels (resize_nearest index (width img, height img) ?small) \<subseteq> labels img"
    by (rule subset_trans)
  have onto: "labels ?small = labels img"
    if "(\<forall>a < height img. \<exists>y < h. index (height img) h y = a) \<and>
        (\<forall>b < width img. \<exists>x < w. index (width img) w x = b)"
    using that by (intro labels_resize_onto [OF assms(1,2)]) simp_all
  from sub up trip onto show ?thesis
    by (intro conjI impI)
qed

lemma double_index: "centre_index n (2 * n) (2 * a) = a" if "0 < n" for n a :: nat
proof -
  have "((2 * (2 * a) + 1) * n) div (2 * (2 * n)) = (n + a * (4 * n)) div (4 * n)"
    by (simp add: algebra_simps)
  also have "\<dots> = a"
    using that by simp
  finally show ?thesis
    by (simp add: centre_index_def)
qed


theorem resize_nearest_labels_witness:
  "rectangular four_by_two \<and>
   labels (resize_nearest centre_index (2, 1) four_by_two) \<subseteq> labels four_by_two \<and>
   labels (resize_nearest centre_index (width four_by_two, height four_by_two)
             (resize_nearest centre_index (2, 1) four_by_two)) \<subseteq> labels four_by_two \<and>
   resize_nearest centre_index (2, 1) four_by_two = [[5, 7]] \<and>
   labels (resize_nearest centre_index (8, 4) four_by_two) = labels four_by_two"
proof -
  have r: "rectangular four_by_two"
    by (simp add: rectangular_def four_by_two_def height_def width_def)
  have s: "width four_by_two = 4" "height four_by_two = 2"
    by (simp_all add: four_by_two_def height_def width_def)
  have "(0::nat) < 2" "(0::nat) < 1" by simp_all
  note down = resize_nearest_labels [OF in_range_centre_index r this]
  from down have 1: "labels (resize_nearest centre_index (2, 1) four_by_two) \<subseteq> labels four_by_two"
    by (rule conjunct1)
  from down [THEN conjunct2, THEN conjunct2]
  have 2: "labels (resize_nearest centre_index (width four_by_two, height four_by_two)
             (resize_nearest centre_index (2, 1) four_by_two)) \<subseteq> labels four_by_two"
    by (rule conjunct1)
  have "(0::nat) < 8" "(0::nat) < 4" by simp_all
  note up = resize_nearest_labels [OF in_range_centre_index r this]
  have rows: "\<forall>a < height four_by_two. \<exists>y < 4. centre_index (height four_by_two) 4 y = a"
    unfolding s
  proof (intro allI impI)
    fix a :: nat assume "a < 2"
    then have "2 * a < 4 \<and> centre_index 2 4 (2 * a) = a"
      using double_index [of 2 a] by simp
    then show "\<exists>y < 4. centre_index 2 4 y = a"
      by (rule exI)
  qed
  have cols: "\<forall>b < width four_by_two. \<exists>x < 8. centre_index (width four_by_two) 8 x = b"
    unfolding s
  proof (intro allI impI)
    fix b :: nat assume "b < 4"
    then have "2 * b < 8 \<and> centre_index 4 8 (2 * b) = b"
      using double_index [of 4 b] by simp
    then show "\<exists>x < 8. centre_index 4 8 x = b"
      by (rule exI)
  qed
  from rows cols have both:
    "(\<forall>a < height four_by_two. \<exists>y < 4. centre_index (height four_by_two) 4 y = a) \<and>
     (\<forall>b < width four_by_two. \<exists>x < 8. centre_index (width four_by_two) 8 x = b)"
    by (rule conjI)
  from up [THEN conjunct2, THEN conjunct2, THEN conjunct2] both
  have 3: "labels (resize_nearest centre_index (8, 4) four_by_two) = labels four_by_two"
    by (rule mp)
  from r 1 2 halve_four_by_two 3 show ?thesis
    by (intro conjI)
qed

section \<open>Properties of freezing and counting\<close>

lemma set_unseen: "set (unseen memo vs) = set vs - set memo"
  by (induction vs arbitrary: memo) auto

lemma distinct_unseen: "distinct (unseen memo vs)"
  by (induction vs arbitrary: memo) (auto simp: set_unseen)

lemma set_parameters: "set (parameters m) = set (registered m)"
  by (simp add: parameters_def set_unseen)

lemma distinct_parameters: "distinct (parameters m)"
  by (simp add: parameters_def distinct_unseen)

lemma length_parameters: "length (parameters m) = card (set (registered m))"
  using distinct_card [OF distinct_parameters [of m]] by (simp add: set_parameters)

lemma set_registered_Module:
  "set (registered (Module ps cs)) = set ps \<union> (\<Union>x \<in> set cs. set (registered (snd x)))"
  by (auto simp: case_prod_beta)

lemma descendant_parameters_Module:
  "descendant_parameters (Module ps cs) =
     (\<Union>x \<in> set cs. set (own_parameters (snd x)) \<union> descendant_parameters (snd x))"
  by (auto simp: descendant_parameters_def case_prod_beta)

lemma set_registered:
  "set (registered m) = set (own_parameters m) \<union> descendant_parameters m"
proof (induction m rule: descendants.induct)
  case (1 ps cs)
  have "set (registered (snd x)) = set (own_parameters (snd x)) \<union> descendant_parameters (snd x)"
    if "x \<in> set cs" for x
    using that "1.IH" [of x "fst x" "snd x"] by simp
  then have "(\<Union>x \<in> set cs. set (registered (snd x))) =
      (\<Union>x \<in> set cs. set (own_parameters (snd x)) \<union> descendant_parameters (snd x))"
    by (intro SUP_cong refl)
  then show ?case
    unfolding set_registered_Module descendant_parameters_Module by simp
qed

lemma descendant_parameters_children:
  "descendant_parameters (Module ps cs) = (\<Union>x \<in> set cs. set (registered (snd x)))"
  by (simp add: descendant_parameters_Module set_registered)

subsection \<open>The loops of \<open>_freeze\<close>\<close>

lemma set_flags_done:
  "v \<longrightarrow> (\<forall>p \<in> set ps. floating p) \<Longrightarrow>
   set_flags floating v ps g = (None, \<lambda>p. if p \<in> set ps then v else g p)"
proof (induction ps arbitrary: g)
  case Nil
  show ?case by simp
next
  case (Cons q ps)
  from Cons.prems have "assign_requires_grad floating q v g = Inr (g(q := v))"
    by (simp add: assign_requires_grad_def)
  then have "set_flags floating v (q # ps) g = set_flags floating v ps (g(q := v))"
    by simp
  also have "\<dots> = (None, \<lambda>p. if p \<in> set ps then v else (g(q := v)) p)"
    using Cons.prems by (intro Cons.IH) simp
  also have "(\<lambda>p. if p \<in> set ps then v else (g(q := v)) p) =
      (\<lambda>p. if p \<in> set (q # ps) then v else g p)"
    by (auto simp: fun_eq_iff)
  finally show ?case .
qed

lemma set_flags_raises:
  "v \<Longrightarrow> \<exists>p \<in> set ps. \<not> floating p \<Longrightarrow>
   \<exists>g'. set_flags floating v ps g = (Some RuntimeError, g') \<and>
        (\<forall>p. g' p = g p \<or> (p \<in> set ps \<and> g' p))"
proof (induction ps arbitrary: g)
  case Nil
  then show ?case by simp
next
  case (Cons q ps)
  show ?case
  proof (cases "floating q")
    case False
    with Cons.prems(1) have "set_flags floating v (q # ps) g = (Some RuntimeError, g)"
      by (simp add: assign_requires_grad_def)
    then show ?thesis by simp
  next
    case True
    with Cons.prems(2) have "\<exists>p \<in> set ps. \<not> floating p"
      by auto
    from Cons.IH [OF Cons.prems(1) this, of "g(q := v)"] obtain g'
      where g': "set_flags floating v ps (g(q := v)) = (Some RuntimeError, g')"
        "\<forall>p. g' p = (g(q := v)) p \<or> (p \<in> set ps \<and> g' p)"
      by blast
    from True g'(1) have "set_flags floating v (q # ps) g = (Some RuntimeError, g')"
      by (simp add: assign_requires_grad_def)
    moreover have "g' p = g p \<or> (p \<in> set (q # ps) \<and> g' p)" for p
      using g'(2) [rule_format, of p] Cons.prems(1) by (cases "p = q") auto
    ultimately show ?thesis by blast
  qed
qed

lemma freeze_children_done:
  assumes below: "\<And>name child g. (name, child) \<in> set cs \<Longrightarrow>
      \<not> frz \<longrightarrow> (\<forall>p \<in> descendant_parameters child. floating p) \<Longrightarrow>
      freeze floating child frz g =
        (None, \<lambda>p. if p \<in> descendant_parameters child then \<not> frz else g p)"
  shows "\<not> frz \<longrightarrow> (\<forall>p \<in> (\<Union>x \<in> set cs. set (registered (snd x))). floating p) \<Longrightarrow>
      freeze_children floating cs frz g =
        (None, \<lambda>p. if p \<in> (\<Union>x \<in> set cs. set (registered (snd x))) then \<not> frz else g p)"
  using below
proof (induction cs arbitrary: g)
  case Nil
  show ?case by simp
next
  case (Cons c cs)
  obtain name child where c: "c = (name, child)" by (cases c)
  let ?g1 = "\<lambda>p. if p \<in> set (parameters child) then \<not> frz else g p"
  let ?g2 = "\<lambda>p. if p \<in> descendant_parameters child then \<not> frz else ?g1 p"
  from Cons.prems(1) have child_ok: "\<not> frz \<longrightarrow> (\<forall>p \<in> set (registered child). floating p)"
    by (simp add: c)
  then have 1: "set_flags floating (\<not> frz) (parameters child) g = (None, ?g1)"
    by (intro set_flags_done) (simp add: set_parameters)
  from child_ok have "\<not> frz \<longrightarrow> (\<forall>p \<in> descendant_parameters child. floating p)"
    by (simp add: set_registered [of child])
  then have 2: "freeze floating child frz ?g1 = (None, ?g2)"
    by (intro Cons.prems(2) [of name]) (simp_all add: c)
  from Cons.prems(1)
  have rest_ok: "\<not> frz \<longrightarrow> (\<forall>p \<in> (\<Union>x \<in> set cs. set (registered (snd x))). floating p)"
    by simp
  have 3: "freeze_children floating cs frz ?g2 =
      (None, \<lambda>p. if p \<in> (\<Union>x \<in> set cs. set (registered (snd x))) then \<not> frz else ?g2 p)"
  proof (rule Cons.IH [OF rest_ok])
    fix name' child' g'
    assume "(name', child') \<in> set cs"
      and "\<not> frz \<longrightarrow> (\<forall>p \<in> descendant_parameters child'. floating p)"
    then show "freeze floating child' frz g' =
        (None, \<lambda>p. if p \<in> descendant_parameters child' then \<not> frz else g' p)"
      by (intro Cons.prems(2) [of name']) simp_all
  qed
  have "freeze_children floating (c # cs) frz g = freeze_children floating cs frz ?g2"
    by (simp add: c 1 2)
  also note 3
  also have "(\<lambda>p. if p \<in> (\<Union>x \<in> set cs. set (registered (snd x))) then \<not> frz else ?g2 p) =
      (\<lambda>p. if p \<in> (\<Union>x \<in> set (c # cs). set (registered (snd x))) then \<not> frz else g p)"
    by (auto simp: fun_eq_iff c set_parameters set_registered [of child])
  finally show ?case .
qed

lemma freeze_done:
  "\<not> frz \<longrightarrow> (\<forall>p \<in> descendant_parameters m. floating p) \<Longrightarrow>
   freeze floating m frz g = (None, \<lambda>p. if p \<in> descendant_parameters m then \<not> frz else g p)"
proof (induction m arbitrary: g rule: descendants.induct)
  case (1 ps cs)
  have "freeze_children floating cs frz g =
      (None, \<lambda>p. if p \<in> (\<Union>x \<in> set cs. set (registered (snd x))) then \<not> frz else g p)"
  proof (rule freeze_children_done)
    fix name child g'
    assume "(name, child) \<in> set cs"
      and "\<not> frz \<longrightarrow> (\<forall>p \<in> descendant_parameters child. floating p)"
    then show "freeze floating child frz g' =
        (None, \<lambda>p. if p \<in> descendant_parameters child then \<not> frz else g' p)"
      by (intro "1.IH" [of "(name, child)" name child]) simp_all
  next
    from "1.prems"
    show "\<not> frz \<longrightarrow> (\<forall>p \<in> (\<Union>x \<in> set cs. set (registered (snd x))). floating p)"
      by (simp add: descendant_parameters_children)
  qed
  then show ?case
    by (simp add: descendant_parameters_children)
qed

lemma freeze_children_raises:
  "\<not> frz \<Longrightarrow> \<exists>p \<in> (\<Union>x \<in> set cs. set (registered (snd x))). \<not> floating p \<Longrightarrow>
   \<exists>g'. freeze_children floating cs frz g = (Some RuntimeError, g') \<and>
        (\<forall>p. g' p = g p \<or> (p \<in> (\<Union>x \<in> set cs. set (registered (snd x))) \<and> g' p))"
proof (induction cs arbitrary: g)
  case Nil
  then show ?case by simp
next
  case (Cons c cs)
  obtain name child where c: "c = (name, child)" by (cases c)
  show ?case
  proof (cases "\<exists>p \<in> set (registered child). \<not> floating p")
    case True
    then have "\<exists>p \<in> set (parameters child). \<not> floating p"
      by (simp add: set_parameters)
    from set_flags_raises [of True "parameters child" floating g, OF TrueI this] obtain g'
      where g': "set_flags floating True (parameters child) g = (Some RuntimeError, g')"
        "\<forall>p. g' p = g p \<or> (p \<in> set (parameters child) \<and> g' p)"
      by blast
    from g'(1) Cons.prems(1)
    have "freeze_children floating (c # cs) frz g = (Some RuntimeError, g')"
      by (simp add: c)
    moreover have "g' p = g p \<or> (p \<in> (\<Union>x \<in> set (c # cs). set (registered (snd x))) \<and> g' p)"
      for p
      using g'(2) [rule_format, of p] by (auto simp: c set_parameters)
    ultimately show ?thesis by blast
  next
    case False
    let ?g1 = "\<lambda>p. if p \<in> set (parameters child) then True else g p"
    let ?g2 = "\<lambda>p. if p \<in> descendant_parameters child then True else ?g1 p"
    from False have 1: "set_flags floating True (parameters child) g = (None, ?g1)"
      by (intro set_flags_done) (simp add: set_parameters)
    from False have "\<forall>p \<in> descendant_parameters child. floating p"
      by (simp add: set_registered [of child])
    then have "freeze floating child False ?g1 =
        (None, \<lambda>p. if p \<in> descendant_parameters child then \<not> False else ?g1 p)"
      by (intro freeze_done) simp
    then have 2: "freeze floating child False ?g1 = (None, ?g2)"
      by simp
    from False Cons.prems(2)
    have "\<exists>p \<in> (\<Union>x \<in> set cs. set (registered (snd x))). \<not> floating p"
      by (auto simp: c)
    from Cons.IH [OF Cons.prems(1) this, of ?g2] obtain g'
      where g': "freeze_children floating cs frz ?g2 = (Some RuntimeError, g')"
        "\<forall>p. g' p = ?g2 p \<or> (p \<in> (\<Union>x \<in> set cs. set (registered (snd x))) \<and> g' p)"
      by blast
    from Cons.prems(1) have frz: "frz = False" by simp
    from g'(1) have "freeze_children floating (c # cs) frz g = (Some RuntimeError, g')"
      by (simp add: c frz 1 2)
    moreover have "g' p = g p \<or> (p \<in> (\<Union>x \<in> set (c # cs). set (registered (snd x))) \<and> g' p)"
      for p
      using g'(2) [rule_format, of p]
      by (auto simp: c set_parameters set_registered [of child] split: if_splits)
    ultimately show ?thesis by blast
  qed
qed

lemma freeze_raises:
  assumes "\<not> frz" and "\<exists>p \<in> descendant_parameters m. \<not> floating p"
  shows "\<exists>g'. freeze floating m frz g = (Some RuntimeError, g') \<and>
        (\<forall>p. g' p = g p \<or> (p \<in> descendant_parameters m \<and> g' p))"
proof (cases m)
  case (Module ps cs)
  with assms(2) have "\<exists>p \<in> (\<Union>x \<in> set cs. set (registered (snd x))). \<not> floating p"
    by (simp add: descendant_parameters_children)
  from freeze_children_raises [OF assms(1) this, of g] show ?thesis
    by (simp add: Module descendant_parameters_children)
qed

subsection \<open>The loops of \<open>_count_freeze\<close>\<close>

lemma fold_count:
  "fold (\<lambda>param (count_requires_grad, count_not_requires_grad).
           if g param then (count_requires_grad + 1, count_not_requires_grad)
           else (count_requires_grad, count_not_requires_grad + 1)) ps (a, b) =
     (a + length (filter g ps), b + length (filter (\<lambda>p. \<not> g p) ps))"
  by (induction ps arbitrary: a b) auto

lemma fold_count_children:
  fixes c d :: "'a \<Rightarrow> nat"
  shows "fold (\<lambda>x (a, b). (a + c x, b + d x)) cs (a, b) =
     (a + (\<Sum>x\<leftarrow>cs. c x), b + (\<Sum>x\<leftarrow>cs. d x))"
  by (induction cs arbitrary: a b) auto

lemma count_freeze_sums:
  "count_freeze m g =
     (\<Sum>x\<leftarrow>named_children m. length (filter g (parameters (snd x))),
      \<Sum>x\<leftarrow>named_children m. length (filter (\<lambda>p. \<not> g p) (parameters (snd x))))"
proof (cases m)
  case (Module ps cs)
  have step: "(\<lambda>(name, child) counts.
          let counts' =
                fold (\<lambda>param (count_requires_grad, count_not_requires_grad).
                        if g param = True then (count_requires_grad + 1, count_not_requires_grad)
                        else (count_requires_grad, count_not_requires_grad + 1))
                     (parameters child) counts;
              dropped = count_freeze child g
          in counts') =
        (\<lambda>x (a, b). (a + length (filter g (parameters (snd x))),
                     b + length (filter (\<lambda>p. \<not> g p) (parameters (snd x)))))"
    by (auto simp: fun_eq_iff fold_count)
  have "count_freeze m g =
      fold (\<lambda>x (a, b). (a + length (filter g (parameters (snd x))),
                           b + length (filter (\<lambda>p. \<not> g p) (parameters (snd x))))) cs (0, 0)"
    unfolding Module count_freeze.simps step ..
  also have "\<dots> = (0 + (\<Sum>x\<leftarrow>cs. length (filter g (parameters (snd x)))),
      0 + (\<Sum>x\<leftarrow>cs. length (filter (\<lambda>p. \<not> g p) (parameters (snd x)))))"
    by (rule fold_count_children)
  finally show ?thesis
    by (simp add: Module)
qed

subsection \<open>What \<open>_freeze\<close> and \<open>freeze_base\<close> set\<close>

lemma descendants_tiny_model:
  "descendants tiny_model =
     [Module [1] [(''level1'', Module [2, 3] []), (''level2'', Module [4] [])],
      Module [2, 3] [], Module [4] [], Module [5] []]"
  by (simp add: tiny_model_def)

lemma descendant_parameters_tiny_model: "descendant_parameters tiny_model = {1, 2, 3, 4, 5}"
  by (auto simp: descendant_parameters_def descendants_tiny_model)

lemma base_net_tiny_model: "base_net tiny_model = Inr tiny_base"
  by (simp add: base_net_def tiny_model_def tiny_base_def)

lemma descendant_parameters_tiny_base: "descendant_parameters tiny_base = {2, 3, 4}"
  by (auto simp: descendant_parameters_def tiny_base_def)

lemma parameters_tiny_base: "parameters tiny_base = [1, 2, 3, 4]"
  by (simp add: parameters_def tiny_base_def)

lemma frozen_base_flags:
  "(\<lambda>param. if param \<in> descendant_parameters tiny_base then False else all_trainable param) =
     all_trainable(2 := False, 3 := False, 4 := False)"
  by (auto simp: fun_eq_iff descendant_parameters_tiny_base)

lemma freeze_base_tiny_model:
  "freeze_base all_floating tiny_model all_trainable =
     Inr (all_trainable(2 := False, 3 := False, 4 := False), 2, 3)"
proof -
  have "freeze all_floating tiny_base True all_trainable =
      (None, \<lambda>p. if p \<in> descendant_parameters tiny_base then \<not> True else all_trainable p)"
    by (rule freeze_done) simp
  also have "(\<lambda>p. if p \<in> descendant_parameters tiny_base then \<not> True else all_trainable p) =
      all_trainable(2 := False, 3 := False, 4 := False)"
    by (auto simp: fun_eq_iff descendant_parameters_tiny_base)
  finally have f: "freeze all_floating tiny_base True all_trainable =
      (None, all_trainable(2 := False, 3 := False, 4 := False))" .
  have n: "named_children tiny_model = [(''base_net'', tiny_base), (''head'', Module [5] [])]"
    by (simp add: tiny_model_def tiny_base_def)
  have p: "parameters (Module [5] []) = [5]"
    by (simp add: parameters_def)
  have "count_freeze tiny_model (all_trainable(2 := False, 3 := False, 4 := False)) = (2, 3)"
    by (simp add: count_freeze_sums n parameters_tiny_base p all_trainable_def del: One_nat_def)
  with f show ?thesis
    by (simp add: freeze_base_def base_net_tiny_model)
qed

lemma unfreeze_integer_parameter:
  "freeze integer_2 tiny_model False none_trainable = (Some RuntimeError, none_trainable(1 := True))"
proof -
  have "parameters (Module [1] [(''level1'', Module [2, 3] []), (''level2'', Module [4] [])])
      = [1, 2, 3, 4]"
    using parameters_tiny_base by (simp add: tiny_base_def)
  then show ?thesis
    by (simp add: tiny_model_def assign_requires_grad_def integer_2_def del: One_nat_def)
qed

text \<open>
  C9 (as stated): after \<open>_freeze(m, f)\<close>, for every \<open>m\<close> and \<open>f\<close>, every parameter of
  every module below \<open>m\<close> has \<open>requires_grad = not f\<close>, and so \<open>freeze_base(model)\<close>
  sets the flag to \<open>False\<close> on exactly the parameters under \<open>model.base_net\<close>. Two inputs
  say otherwise. \<open>_freeze\<close> starts at the children of the module it is given: parameter 1,
  registered on \<open>base_net\<close> itself, is among \<open>base_net.parameters()\<close> and stays trainable
  after \<open>freeze_base\<close>. And unfreezing stops with \<open>RuntimeError\<close> at an integer parameter:
  the parameters after it keep their flag.
\<close>

theorem freeze_base_own_parameter_counterexample:
  "base_net tiny_model = Inr tiny_base \<and>
   1 \<in> set (parameters tiny_base) \<and>
   freeze_base all_floating tiny_model all_trainable =
     Inr (all_trainable(2 := False, 3 := False, 4 := False), 2, 3) \<and>
   (all_trainable(2 := False, 3 := False, 4 := False)) 1 = True \<and>
   freeze integer_2 tiny_model False none_trainable =
     (Some RuntimeError, none_trainable(1 := True))"
proof (intro conjI)
  show "base_net tiny_model = Inr tiny_base"
    by (rule base_net_tiny_model)
  show "1 \<in> set (parameters tiny_base)"
    by (simp add: parameters_tiny_base)
  show "freeze_base all_floating tiny_model all_trainable =
     Inr (all_trainable(2 := False, 3 := False, 4 := False), 2, 3)"
    by (rule freeze_base_tiny_model)
  show "(all_trainable(2 := False, 3 := False, 4 := False)) 1 = True"
    by (simp add: all_trainable_def)
  show "freeze integer_2 tiny_model False none_trainable =
     (Some RuntimeError, none_trainable(1 := True))"
    by (rule unfreeze_integer_parameter)
qed

text \<open>
  C9 (amended): \<open>_freeze(m, f)\<close> reaches the parameters registered on the modules below
  \<open>m\<close> (its descendants, depth-first through \<open>named_children\<close>), not those registered only
  on \<open>m\<close> itself. When \<open>f\<close> is true, or every such parameter has a floating-point or
  complex dtype, it returns, every one of them has \<open>requires_grad = not f\<close>, and no other
  parameter has changed. When \<open>f\<close> is false and one of them has another dtype, it raises
  \<open>RuntimeError\<close>, having set to \<open>True\<close> only flags of parameters below \<open>m\<close>. So
  \<open>freeze_base(model)\<close> always returns, and sets the flag to \<open>False\<close> on exactly the
  parameters registered on the modules below \<open>model.base_net\<close>; every other parameter of
  the model, those registered only on \<open>base_net\<close> itself among them, is left as it was.
\<close>

theorem freeze_descendants:
  "(frz \<or> (\<forall>param \<in> descendant_parameters m. floating param) \<longrightarrow>
      freeze floating m frz g =
        (None, \<lambda>param. if param \<in> descendant_parameters m then \<not> frz else g param)) \<and>
   (\<not> frz \<and> (\<exists>param \<in> descendant_parameters m. \<not> floating param) \<longrightarrow>
      (\<exists>g'. freeze floating m frz g = (Some RuntimeError, g') \<and>
         (\<forall>param. g' param = g param \<or> (param \<in> descendant_parameters m \<and> g' param)))) \<and>
   (\<forall>b. base_net model = Inr b \<longrightarrow>
      (\<exists>counts. freeze_base floating model g =
         Inr (\<lambda>param. if param \<in> descendant_parameters b then False else g param, counts)))"
proof (intro conjI allI impI)
  assume "frz \<or> (\<forall>param \<in> descendant_parameters m. floating param)"
  then have "\<not> frz \<longrightarrow> (\<forall>p \<in> descendant_parameters m. floating p)"
    by blast
  then show "freeze floating m frz g =
      (None, \<lambda>param. if param \<in> descendant_parameters m then \<not> frz else g param)"
    by (rule freeze_done)
next
  assume "\<not> frz \<and> (\<exists>param \<in> descendant_parameters m. \<not> floating param)"
  then have "\<not> frz" and "\<exists>p \<in> descendant_parameters m. \<not> floating p"
    by simp_all
  then show "\<exists>g'. freeze floating m frz g = (Some RuntimeError, g') \<and>
         (\<forall>param. g' param = g param \<or> (param \<in> descendant_parameters m \<and> g' param))"
    by (rule freeze_raises)
next
  fix b assume b: "base_net model = Inr b"
  let ?g' = "\<lambda>param. if param \<in> descendant_parameters b then False else g param"
  have "freeze floating b True g =
      (None, \<lambda>p. if p \<in> descendant_parameters b then \<not> True else g p)"
    by (rule freeze_done) simp
  then have "freeze floating b True g = (None, ?g')"
    by simp
  then have "freeze_base floating model g =
      Inr (?g', fst (count_freeze model ?g'), snd (count_freeze model ?g'))"
    by (simp add: freeze_base_def b)
  then show "\<exists>counts. freeze_base floating model g = Inr (?g', counts)"
    by blast
qed

theorem freeze_descendants_witness:
  "fst (freeze all_floating tiny_model False none_trainable) = None \<and>
   map (snd (freeze all_floating tiny_model False none_trainable)) [0, 1, 2, 3, 4, 5, 6] =
     [False, True, True, True, True, True, False] \<and>
   fst (freeze integer_2 tiny_model False none_trainable) = Some RuntimeError \<and>
   (\<exists>counts. freeze_base all_floating tiny_model all_trainable =
      Inr (all_trainable(2 := False, 3 := False, 4 := False), counts))"
proof -
  have "False \<or> (\<forall>param \<in> descendant_parameters tiny_model. all_floating param)"
    by (simp add: all_floating_def)
  with freeze_descendants [where frz = False and floating = all_floating and m = tiny_model
      and g = none_trainable, THEN conjunct1]
  have 1: "freeze all_floating tiny_model False none_trainable =
      (None, \<lambda>param. if param \<in> descendant_parameters tiny_model then \<not> False
                     else none_trainable param)"
    by (rule mp)
  have "\<not> False \<and> (\<exists>param \<in> descendant_parameters tiny_model. \<not> integer_2 param)"
    by (simp add: descendant_parameters_tiny_model integer_2_def)
  with freeze_descendants [where frz = False and floating = integer_2 and m = tiny_model
      and g = none_trainable, THEN conjunct2, THEN conjunct1]
  have "\<exists>g'. freeze integer_2 tiny_model False none_trainable = (Some RuntimeError, g') \<and>
      (\<forall>param. g' param = none_trainable param \<or>
         (param \<in> descendant_parameters tiny_model \<and> g' param))"
    by (rule mp)
  then have 2: "fst (freeze integer_2 tiny_model False none_trainable) = Some RuntimeError"
    by auto
  from freeze_descendants [where floating = all_floating and model = tiny_model
      and g = all_trainable, THEN conjunct2, THEN conjunct2, rule_format, OF base_net_tiny_model]
  have 3: "\<exists>counts. freeze_base all_floating tiny_model all_trainable =
      Inr (all_trainable(2 := False, 3 := False, 4 := False), counts)"
    unfolding frozen_base_flags .
  from 1 have "fst (freeze all_floating tiny_model False none_trainable) = None"
    and "map (snd (freeze all_floating tiny_model False none_trainable)) [0, 1, 2, 3, 4, 5, 6] =
     [False, True, True, True, True, True, False]"
    by (simp_all add: descendant_parameters_tiny_model none_trainable_def)
  with 2 3 show ?thesis
    by (intro conjI)
qed

subsection \<open>What \<open>_count_freeze\<close> counts\<close>

lemma parameters_tied_model:
  "parameters (Module [0, 1] []) = [0, 1]" "parameters (Module [0, 2] []) = [0, 2]"
  by (simp_all add: parameters_def)

text \<open>
  C10 (as stated): the two counts of \<open>_count_freeze(m)\<close> add up to the number of
  parameters in the subtrees of \<open>m\<close>'s children, each parameter counted once. The loop
  counts child by child: a parameter object registered under two children is counted
  twice. Here three parameters give a sum of four.
\<close>

theorem count_freeze_shared_counterexample:
  "fst (count_freeze tied_model all_trainable) + snd (count_freeze tied_model all_trainable)
     \<noteq> card (descendant_parameters tied_model) \<and>
   count_freeze tied_model all_trainable = (4, 0) \<and>
   descendant_parameters tied_model = {0, 1, 2}"
proof -
  have c: "count_freeze tied_model all_trainable = (4, 0)"
    by (simp add: count_freeze_sums tied_model_def parameters_tied_model all_trainable_def
        del: One_nat_def)
  have d: "descendant_parameters tied_model = {0, 1, 2}"
    by (auto simp: tied_model_def descendant_parameters_children)
  from c d show ?thesis by simp
qed

text \<open>
  C10 (amended): \<open>_count_freeze(m)\<close> returns the number of unfrozen and of frozen
  parameters, summed over \<open>m\<close>'s children, each child contributing the distinct parameters
  of its subtree; a parameter is counted once for every child whose subtree holds it. The
  sum is the number of parameters below \<open>m\<close>, each counted once, when no two children share
  a parameter. Registering a parameter on \<open>m\<close> itself adds nothing, and the value of the
  recursive call has no part in the result.
\<close>

theorem count_freeze_counts:
  "fst (count_freeze m g) = (\<Sum>x\<leftarrow>named_children m. length (filter g (parameters (snd x)))) \<and>
   snd (count_freeze m g) =
     (\<Sum>x\<leftarrow>named_children m. length (filter (\<lambda>param. \<not> g param) (parameters (snd x)))) \<and>
   fst (count_freeze m g) + snd (count_freeze m g) =
     (\<Sum>x\<leftarrow>named_children m. card (set (registered (snd x)))) \<and>
   (distinct (concat (map (\<lambda>x. parameters (snd x)) (named_children m))) \<longrightarrow>
      fst (count_freeze m g) + snd (count_freeze m g) = card (descendant_parameters m))"
proof -
  let ?cs = "named_children m"
  have total: "fst (count_freeze m g) + snd (count_freeze m g) =
      (\<Sum>x\<leftarrow>?cs. length (parameters (snd x)))"
    by (simp add: count_freeze_sums sum_list_addf [symmetric] sum_length_filter_compl)
  have "set (concat (map (\<lambda>x. parameters (snd x)) ?cs)) = descendant_parameters m"
    by (cases m) (simp add: descendant_parameters_children set_parameters)
  then have "card (descendant_parameters m) = (\<Sum>x\<leftarrow>?cs. length (parameters (snd x)))"
    if "distinct (concat (map (\<lambda>x. parameters (snd x)) ?cs))"
    using distinct_card [OF that] by (simp add: length_concat comp_def)
  with total show ?thesis
    by (simp add: count_freeze_sums length_parameters)
qed

lemma parameters_tiny_children:
  "parameters (Module [1] [(''level1'', Module [2, 3] []), (''level2'', Module [4] [])]) = [1, 2, 3, 4]"
  "parameters (Module [5] []) = [5]"
  by (simp_all add: parameters_def)

theorem count_freeze_counts_witness:
  "count_freeze tiny_model some_frozen = (2, 3) \<and> card (descendant_parameters tiny_model) = 5"
proof -
  note t = count_freeze_counts [of tiny_model some_frozen]
  have n: "named_children tiny_model =
      [(''base_net'', Module [1] [(''level1'', Module [2, 3] []), (''level2'', Module [4] [])]),
       (''head'', Module [5] [])]"
    by (simp add: tiny_model_def)
  have "distinct (concat (map (\<lambda>x. parameters (snd x)) (named_children tiny_model)))"
    by (simp add: n parameters_tiny_children del: One_nat_def)
  with t have "fst (count_freeze tiny_model some_frozen) + snd (count_freeze tiny_model some_frozen)
      = card (descendant_parameters tiny_model)"
    by blast
  moreover have "card (descendant_parameters tiny_model) = 5"
    by (simp add: descendant_parameters_tiny_model)
  moreover from t have "fst (count_freeze tiny_model some_frozen) = 2"
    by (simp add: n parameters_tiny_children some_frozen_def del: One_nat_def)
  ultimately show ?thesis
    by (cases "count_freeze tiny_model some_frozen") simp
qed

end
